theory Spec2Isabelle
  imports Complex_Main "HOL-Library.Sublist"
begin

section \<open>Python strings and integers\<close>

text \<open>
  Strings are ASCII text, one \<^typ>\<open>char\<close> per character. \<open>lower\<close> is \<^verbatim>\<open>str.lower()\<close>,
  \<open>strip\<close> is \<^verbatim>\<open>str.strip()\<close>, \<open>contains needle s\<close> is \<^verbatim>\<open>needle in s\<close>,
  \<open>str_int\<close> is \<^verbatim>\<open>str(n)\<close> (what an f-string prints for an integer) and \<open>py_int\<close> is
  \<^verbatim>\<open>int(s)\<close>, with \<open>None\<close> where Python raises ValueError.
\<close>

definition lower_char :: "char \<Rightarrow> char" where
  "lower_char c =
     (let n = (of_char c :: nat) in if 65 \<le> n \<and> n \<le> 90 then char_of (n + 32) else c)"

definition lower :: "string \<Rightarrow> string" where
  "lower s = map lower_char s"

definition is_space :: "char \<Rightarrow> bool" where
  "is_space c = (let n = (of_char c :: nat) in n = 32 \<or> (9 \<le> n \<and> n \<le> 13) \<or> (28 \<le> n \<and> n \<le> 31))"

definition strip :: "string \<Rightarrow> string" where
  "strip s = rev (dropWhile is_space (rev (dropWhile is_space s)))"

definition lstrip_slash :: "string \<Rightarrow> string" where
  "lstrip_slash s = dropWhile (\<lambda>c. c = CHR ''/'') s"

fun contains :: "string \<Rightarrow> string \<Rightarrow> bool" where
  "contains needle [] = (needle = [])"
| "contains needle (c # cs) = (prefix needle (c # cs) \<or> contains needle cs)"

definition digit_char :: "nat \<Rightarrow> char" where
  "digit_char d = char_of (48 + d)"

fun str_nat :: "nat \<Rightarrow> string" where
  "str_nat n = (if n < 10 then [digit_char n] else str_nat (n div 10) @ [digit_char (n mod 10)])"

definition str_int :: "int \<Rightarrow> string" where
  "str_int i = (if i < 0 then CHR ''-'' # str_nat (nat (- i)) else str_nat (nat i))"

definition digit_of :: "char \<Rightarrow> int option" where
  "digit_of c = (let n = (of_char c :: int) in if 48 \<le> n \<and> n \<le> 57 then Some (n - 48) else None)"

text \<open>
  Decimal digits with single underscores between them, after the first digit has been
  read into \<open>acc\<close>.
\<close>

fun digits_val :: "int \<Rightarrow> string \<Rightarrow> int option" where
  "digits_val acc [] = Some acc"
| "digits_val acc [c] =
     (case digit_of c of None \<Rightarrow> None | Some v \<Rightarrow> Some (10 * acc + v))"
| "digits_val acc (c # d # ds) =
     (if c = CHR ''_''
      then (case digit_of d of None \<Rightarrow> None | Some v \<Rightarrow> digits_val (10 * acc + v) ds)
      else (case digit_of c of None \<Rightarrow> None | Some v \<Rightarrow> digits_val (10 * acc + v) (d # ds)))"

definition unsigned_val :: "string \<Rightarrow> int option" where
  "unsigned_val s =
     (case s of [] \<Rightarrow> None
      | c # cs \<Rightarrow> (case digit_of c of None \<Rightarrow> None | Some v \<Rightarrow> digits_val v cs))"

text \<open>
  \<^verbatim>\<open>int(s)\<close> skips the whitespace of C (codes 9 to 13 and 32) on both sides, a smaller
  set than \<^verbatim>\<open>str.strip()\<close> removes, and refuses a literal of more than 4300 digits.
\<close>

definition is_int_space :: "char \<Rightarrow> bool" where
  "is_int_space c = (let n = (of_char c :: nat) in n = 32 \<or> (9 \<le> n \<and> n \<le> 13))"

definition py_int :: "string \<Rightarrow> int option" where
  "py_int s =
     (let body = rev (dropWhile is_int_space (rev (dropWhile is_int_space s)))
      in if length (filter (\<lambda>c. digit_of c \<noteq> None) body) > 4300 then None
         else
           (case body of
              [] \<Rightarrow> None
            | c # cs \<Rightarrow>
                if c = CHR ''-'' then map_option uminus (unsigned_val cs)
                else if c = CHR ''+'' then unsigned_val cs
                else unsigned_val (c # cs)))"

section \<open>Decoded JSON values\<close>

text \<open>
  What \<^verbatim>\<open>response.json()\<close> returns: a Python value built from \<^verbatim>\<open>None\<close>, booleans,
  numbers, strings, lists and dicts. A dict is an association list in which the first
  binding of a key is the one that counts.
\<close>

datatype json =
    JNull
  | JBool bool
  | JInt int
  | JFloat real
  | JStr string
  | JArr "json list"
  | JObj "(string \<times> json) list"

text \<open>Truth value of a Python object, as tested by \<^verbatim>\<open>if not data\<close>.\<close>

fun truthy :: "json \<Rightarrow> bool" where
  "truthy JNull = False"
| "truthy (JBool b) = b"
| "truthy (JInt n) = (n \<noteq> 0)"
| "truthy (JFloat x) = (x \<noteq> 0)"
| "truthy (JStr s) = (s \<noteq> [])"
| "truthy (JArr xs) = (xs \<noteq> [])"
| "truthy (JObj kvs) = (kvs \<noteq> [])"

section \<open>Exceptions\<close>

text \<open>
  \<^verbatim>\<open>requests.exceptions.RequestException\<close> with the subclasses the client names,
  the module's \<^verbatim>\<open>GitHubAPIError\<close> and its subclass \<^verbatim>\<open>RateLimitError\<close> (both carry
  their message, which handlers read with \<^verbatim>\<open>str(e)\<close>), and the built-in ValueError,
  TypeError and KeyError, whose messages no handler reads.
\<close>

datatype request_failure = Timeout | ConnectionError | OtherRequestFailure

datatype exn =
    RequestException request_failure
  | GitHubAPIError string
  | RateLimitError string
  | ValueError
  | TypeError
  | KeyError

text \<open>\<^verbatim>\<open>except GitHubAPIError\<close> also catches the subclass RateLimitError.\<close>

fun is_GitHubAPIError :: "exn \<Rightarrow> bool" where
  "is_GitHubAPIError (GitHubAPIError m) = True"
| "is_GitHubAPIError (RateLimitError m) = True"
| "is_GitHubAPIError e = False"

fun str_exn :: "exn \<Rightarrow> string" where
  "str_exn (GitHubAPIError m) = m"
| "str_exn (RateLimitError m) = m"
| "str_exn e = []"

text \<open>Sequencing of a computation that may raise.\<close>

definition bind_exn :: "exn + 'a \<Rightarrow> ('a \<Rightarrow> exn + 'b) \<Rightarrow> exn + 'b" where
  "bind_exn m f = (case m of Inl e \<Rightarrow> Inl e | Inr v \<Rightarrow> f v)"

text \<open>
  Operations of Python containers on a decoded value: iteration (\<^verbatim>\<open>list.extend\<close>, a
  comprehension), \<^verbatim>\<open>len\<close>, subscription \<^verbatim>\<open>data[key]\<close> and membership
  \<^verbatim>\<open>key in data\<close> for a string key. Each raises TypeError on \<^verbatim>\<open>None\<close>, booleans
  and numbers; a string key subscripts a dict only.
\<close>

fun py_iter :: "json \<Rightarrow> exn + json list" where
  "py_iter (JArr xs) = Inr xs"
| "py_iter (JObj kvs) = Inr (map JStr (remdups (map fst kvs)))"
| "py_iter (JStr s) = Inr (map (\<lambda>c. JStr [c]) s)"
| "py_iter j = Inl TypeError"

fun py_len :: "json \<Rightarrow> exn + nat" where
  "py_len (JArr xs) = Inr (length xs)"
| "py_len (JObj kvs) = Inr (length (remdups (map fst kvs)))"
| "py_len (JStr s) = Inr (length s)"
| "py_len j = Inl TypeError"

fun py_getitem :: "json \<Rightarrow> string \<Rightarrow> exn + json" where
  "py_getitem (JObj kvs) k = (case map_of kvs k of None \<Rightarrow> Inl KeyError | Some v \<Rightarrow> Inr v)"
| "py_getitem j k = Inl TypeError"

fun py_in :: "string \<Rightarrow> json \<Rightarrow> exn + bool" where
  "py_in k (JObj kvs) = Inr (k \<in> set (map fst kvs))"
| "py_in k (JArr xs) = Inr (JStr k \<in> set xs)"
| "py_in k (JStr s) = Inr (contains k s)"
| "py_in k j = Inl TypeError"

section \<open>The transport, the clock and the observable effects\<close>

text \<open>
  A request is the URL and the query parameters handed to \<^verbatim>\<open>session.get\<close>; a response
  is what the client reads of a \<^verbatim>\<open>requests.Response\<close>: status code, headers, URL, body
  text, and the outcome of \<^verbatim>\<open>response.json()\<close> (\<open>Inl\<close> the message of the ValueError
  it raises on a body that is not JSON).
\<close>

type_synonym params = "(string \<times> json) list"

record request =
  req_url :: string
  req_params :: "params option"

record response =
  status_code :: int
  headers :: "(string \<times> string) list"
  url :: string
  body_text :: string
  json :: "string + json"

datatype transport_result = Raises request_failure | Returns response

text \<open>
  The world outside the client: \<open>send env n req\<close> is what \<^verbatim>\<open>session.get\<close> does on
  the call that follows \<open>n\<close> earlier ones, and \<open>clock env n\<close> is \<^verbatim>\<open>int(time.time())\<close>
  while that call's response is handled.
\<close>

record env =
  send :: "nat \<Rightarrow> request \<Rightarrow> transport_result"
  clock :: "nat \<Rightarrow> int"

text \<open>
  What a run leaves behind: the requests sent by \<^verbatim>\<open>session.get\<close>, the calls of the
  decorated \<^verbatim>\<open>_make_request\<close> (endpoint and parameters), and the arguments of
  \<^verbatim>\<open>time.sleep\<close>, each oldest first. Log lines are not modelled.
\<close>

record world =
  attempts :: "request list"
  calls :: "(string \<times> params option) list"
  sleeps :: "real list"

definition world0 :: world where
  "world0 = \<lparr>attempts = [], calls = [], sleeps = []\<rparr>"

definition sleep :: "real \<Rightarrow> world \<Rightarrow> world" where
  "sleep d w = w\<lparr>sleeps := sleeps w @ [d]\<rparr>"

section \<open>retry\_with\_exponential\_backoff\<close>

text \<open>\<^verbatim>\<open>except (requests.exceptions.RequestException, RateLimitError)\<close>\<close>

fun retried :: "exn \<Rightarrow> bool" where
  "retried (RequestException f) = True"
| "retried (RateLimitError m) = True"
| "retried e = False"

text \<open>
  The \<^verbatim>\<open>for attempt in range(max_retries + 1)\<close> loop of the wrapper; the first
  argument counts the iterations still to run. When the range is exhausted the wrapper
  ends with an unguarded \<^verbatim>\<open>return func(*args, **kwargs)\<close>.
\<close>

fun retry_loop ::
  "nat \<Rightarrow> nat \<Rightarrow> int \<Rightarrow> real \<Rightarrow> (world \<Rightarrow> (exn + 'a) \<times> world) \<Rightarrow> world \<Rightarrow> (exn + 'a) \<times> world"
where
  "retry_loop 0 attempt max_retries base_delay func w = func w"
| "retry_loop (Suc k) attempt max_retries base_delay func w =
     (case func w of
        (Inr v, w') \<Rightarrow> (Inr v, w')
      | (Inl e, w') \<Rightarrow>
          if retried e then
            if int attempt = max_retries then (Inl e, w')
            else retry_loop k (Suc attempt) max_retries base_delay func
                   (sleep (base_delay * 2 ^ attempt) w')
          else (Inl e, w'))"

definition retry_with_exponential_backoff ::
  "int \<Rightarrow> real \<Rightarrow> (world \<Rightarrow> (exn + 'a) \<times> world) \<Rightarrow> world \<Rightarrow> (exn + 'a) \<times> world"
where
  "retry_with_exponential_backoff max_retries base_delay func w =
     retry_loop (nat (max_retries + 1)) 0 max_retries base_delay func w"

section \<open>GitHubAPIClient\<close>

subsection \<open>\_handle\_response\<close>

text \<open>
  \<^verbatim>\<open>response.headers\<close> is case-insensitive in its keys. \<open>ok\<close> is \<^verbatim>\<open>response.ok\<close>
  of the requests library: false exactly for the statuses 400 to 599.
\<close>

definition header_get :: "(string \<times> string) list \<Rightarrow> string \<Rightarrow> string option" where
  "header_get hs k = map_of (map (\<lambda>(a, b). (lower a, b)) hs) (lower k)"

definition ok :: "response \<Rightarrow> bool" where
  "ok r = (\<not> (400 \<le> status_code r \<and> status_code r < 600))"

text \<open>\<^verbatim>\<open>int(response.headers.get('X-RateLimit-Reset', 0))\<close>\<close>

definition reset_time_of :: "response \<Rightarrow> exn + int" where
  "reset_time_of r =
     (case header_get (headers r) ''X-RateLimit-Reset'' of
        None \<Rightarrow> Inr 0
      | Some s \<Rightarrow> (case py_int s of None \<Rightarrow> Inl ValueError | Some n \<Rightarrow> Inr n))"

text \<open>
  The first block of the method, which only logs a warning; its result is the exception
  it raises, if any.
\<close>

definition check_rate_limit_headers :: "response \<Rightarrow> exn option" where
  "check_rate_limit_headers r =
     (case header_get (headers r) ''X-RateLimit-Remaining'' of
        None \<Rightarrow> None
      | Some s \<Rightarrow>
          (case py_int s of
             None \<Rightarrow> Some ValueError
           | Some remaining \<Rightarrow>
               if remaining < 10
               then (case reset_time_of r of Inl e \<Rightarrow> Some e | Inr reset_time \<Rightarrow> None)
               else None))"

definition handle_response :: "int \<Rightarrow> response \<Rightarrow> exn + json" where
  "handle_response current_time r =
     (case check_rate_limit_headers r of
        Some e \<Rightarrow> Inl e
      | None \<Rightarrow>
          if status_code r = 403 \<and> contains ''rate limit exceeded'' (lower (body_text r)) then
            (case reset_time_of r of
               Inl e \<Rightarrow> Inl e
             | Inr reset_time \<Rightarrow>
                 Inl (RateLimitError (''Rate limit exceeded. Try again in ''
                        @ str_int (max 0 (reset_time - current_time)) @ '' seconds.'')))
          else if status_code r = 404 then
            Inl (GitHubAPIError (''Resource not found: '' @ url r))
          else if \<not> ok r then
            Inl (GitHubAPIError (''GitHub API error '' @ str_int (status_code r) @ '': '' @ body_text r))
          else
            (case json r of
               Inl msg \<Rightarrow> Inl (GitHubAPIError (''Invalid JSON response: '' @ msg))
             | Inr v \<Rightarrow> Inr v))"

subsection \<open>\_make\_request\<close>

definition base_url :: string where
  "base_url = ''https://api.github.com''"

text \<open>The body of the method, before decoration.\<close>

definition make_request_body ::
  "env \<Rightarrow> string \<Rightarrow> params option \<Rightarrow> world \<Rightarrow> (exn + json) \<times> world"
where
  "make_request_body env endpoint ps w =
     (let rq = \<lparr>req_url = base_url @ ''/'' @ lstrip_slash endpoint, req_params = ps\<rparr>;
          n = length (attempts w);
          w' = w\<lparr>attempts := attempts w @ [rq]\<rparr>
      in case send env n rq of
           Raises Timeout \<Rightarrow> (Inl (GitHubAPIError ''Request timeout''), w')
         | Raises ConnectionError \<Rightarrow> (Inl (GitHubAPIError ''Connection error''), w')
         | Raises OtherRequestFailure \<Rightarrow> (Inl (RequestException OtherRequestFailure), w')
         | Returns r \<Rightarrow> (handle_response (clock env n) r, w'))"

text \<open>\<^verbatim>\<open>@retry_with_exponential_backoff(max_retries=3)\<close>, with the default base delay 1.0.\<close>

definition make_request ::
  "env \<Rightarrow> string \<Rightarrow> params option \<Rightarrow> world \<Rightarrow> (exn + json) \<times> world"
where
  "make_request env endpoint ps w =
     retry_with_exponential_backoff 3 1.0 (make_request_body env endpoint ps)
       (w\<lparr>calls := calls w @ [(endpoint, ps)]\<rparr>)"

subsection \<open>The paginated listings\<close>

text \<open>
  One pass through the body of a \<^verbatim>\<open>while\<close> loop either leaves the loop (\<^verbatim>\<open>break\<close>,
  \<^verbatim>\<open>return\<close> or an exception) with the method's outcome, or goes round again
  with the loop variables updated.
\<close>

datatype ('r, 's) iteration = Break 'r | Continue 's

type_synonym listing = "json list \<times> nat \<times> world"

text \<open>
  The loop of \<^verbatim>\<open>get_repositories\<close>. The loop variables are \<^verbatim>\<open>repositories\<close> and
  \<^verbatim>\<open>page\<close>.
\<close>

definition repositories_params :: "int \<Rightarrow> nat \<Rightarrow> params" where
  "repositories_params per_page page =
     [(''per_page'', JInt (min per_page 100)), (''page'', JInt (int page)),
      (''sort'', JStr ''updated''), (''direction'', JStr ''desc'')]"

definition repositories_step ::
  "env \<Rightarrow> string \<Rightarrow> int \<Rightarrow> listing \<Rightarrow> ((exn + json list) \<times> world, listing) iteration"
where
  "repositories_step env endpoint per_page s =
     (case s of (repositories, page, w) \<Rightarrow>
        (case make_request env endpoint (Some (repositories_params per_page page)) w of
           (Inl e, w') \<Rightarrow> Break (Inl e, w')
         | (Inr data, w') \<Rightarrow>
             if \<not> truthy data then Break (Inr repositories, w')
             else
               (case py_iter data of
                  Inl e \<Rightarrow> Break (Inl e, w')
                | Inr items \<Rightarrow>
                    (case py_len data of
                       Inl e \<Rightarrow> Break (Inl e, w')
                     | Inr n \<Rightarrow>
                         if int n < min per_page 100 then Break (Inr (repositories @ items), w')
                         else if Suc page > 100 then Break (Inr (repositories @ items), w')
                         else Continue (repositories @ items, Suc page, w')))))"

lemma repositories_step_Continue:
  "repositories_step env endpoint per_page (repositories, page, w) = Continue (repositories', page', w')
   \<Longrightarrow> page' = Suc page \<and> page' \<le> 100"
  by (auto simp: repositories_step_def split: prod.splits sum.splits if_splits)

function get_repositories_loop ::
  "env \<Rightarrow> string \<Rightarrow> int \<Rightarrow> listing \<Rightarrow> (exn + json list) \<times> world"
where
  "get_repositories_loop env endpoint per_page s =
     (case repositories_step env endpoint per_page s of
        Break r \<Rightarrow> r
      | Continue s' \<Rightarrow> get_repositories_loop env endpoint per_page s')"
  by pat_completeness auto
termination
proof (relation "measure (\<lambda>(env, endpoint, per_page, repositories, page, w). 101 - page)")
  show "wf (measure (\<lambda>(env, endpoint, per_page, repositories, page, w). 101 - page))"
    by simp
next
  fix env :: env and endpoint :: string and per_page :: int and s s' :: listing
  assume step: "repositories_step env endpoint per_page s = Continue s'"
  obtain repositories page w where s: "s = (repositories, page, w)" by (cases s)
  obtain repositories' page' w' where s': "s' = (repositories', page', w')" by (cases s')
  from repositories_step_Continue [OF step [unfolded s s']]
  show "((env, endpoint, per_page, s'), (env, endpoint, per_page, s))
          \<in> measure (\<lambda>(env, endpoint, per_page, repositories, page, w). 101 - page)"
    by (auto simp: s s')
qed

declare get_repositories_loop.simps [simp del]

subsection \<open>\_detect\_owner\_type\<close>

definition owner_not_found :: "string \<Rightarrow> string" where
  "owner_not_found owner_name =
     ''Owner '' @ [CHR 0x27] @ owner_name @ [CHR 0x27] @ '' not found as organization or user''"

definition detect_owner_type :: "env \<Rightarrow> string \<Rightarrow> world \<Rightarrow> (exn + string) \<times> world" where
  "detect_owner_type env owner_name w =
     (case make_request env (''orgs/'' @ owner_name) None w of
        (Inr org, w1) \<Rightarrow> (Inr ''org'', w1)
      | (Inl e, w1) \<Rightarrow>
          if is_GitHubAPIError e then
            (case make_request env (''users/'' @ owner_name) None w1 of
               (Inr user, w2) \<Rightarrow> (Inr ''user'', w2)
             | (Inl e2, w2) \<Rightarrow>
                 if is_GitHubAPIError e2
                 then (Inl (GitHubAPIError (owner_not_found owner_name)), w2)
                 else (Inl e2, w2))
          else (Inl e, w1))"

subsection \<open>get\_repositories\<close>

definition get_repositories ::
  "env \<Rightarrow> string \<Rightarrow> string \<Rightarrow> int \<Rightarrow> world \<Rightarrow> (exn + json list) \<times> world"
where
  "get_repositories env owner_name owner_type per_page w =
     (if owner_name = [] \<or> strip owner_name = [] then (Inl ValueError, w)
      else
        (case (if owner_type = ''auto'' then detect_owner_type env (strip owner_name) w
               else (Inr owner_type, w)) of
           (Inl e, w1) \<Rightarrow> (Inl e, w1)
         | (Inr kind, w1) \<Rightarrow>
             if kind \<noteq> ''org'' \<and> kind \<noteq> ''user'' then (Inl ValueError, w1)
             else
               get_repositories_loop env
                 (if kind = ''org'' then ''orgs/'' @ strip owner_name @ ''/repos''
                  else ''users/'' @ strip owner_name @ ''/repos'')
                 per_page ([], 1, w1)))"

subsection \<open>get\_repository\_readme\<close>

text \<open>
  \<open>b64decode_utf8\<close> stands for \<^verbatim>\<open>base64.b64decode(x).decode('utf-8')\<close> of the
  standard library, which the method applies to the \<^verbatim>\<open>content\<close> field. The result is
  \<^verbatim>\<open>Optional[str]\<close>.
\<close>

definition readme_body ::
  "(json \<Rightarrow> exn + string) \<Rightarrow> json \<Rightarrow> exn + string option"
where
  "readme_body b64decode_utf8 data =
     (case py_in ''content'' data of
        Inl e \<Rightarrow> Inl e
      | Inr has_content \<Rightarrow>
          if has_content then
            (case py_getitem data ''content'' of
               Inl e \<Rightarrow> Inl e
             | Inr c \<Rightarrow> (case b64decode_utf8 c of Inl e \<Rightarrow> Inl e | Inr content \<Rightarrow> Inr (Some content)))
          else Inr None)"

definition get_repository_readme ::
  "(json \<Rightarrow> exn + string) \<Rightarrow> env \<Rightarrow> string \<Rightarrow> string \<Rightarrow> world
     \<Rightarrow> (exn + string option) \<times> world"
where
  "get_repository_readme b64decode_utf8 env owner repo_name w =
     (if owner = [] \<or> repo_name = [] then (Inl ValueError, w)
      else
        (case (case make_request env (''repos/'' @ strip owner @ ''/'' @ strip repo_name @ ''/readme'') None w of
                 (Inl e, w') \<Rightarrow> (Inl e, w')
               | (Inr data, w') \<Rightarrow> (readme_body b64decode_utf8 data, w')) of
           (Inr content, w') \<Rightarrow> (Inr content, w')
         | (Inl e, w') \<Rightarrow>
             if is_GitHubAPIError e then
               if contains ''not found'' (lower (str_exn e)) then (Inr None, w')
               else (Inl e, w')
             else (Inl e, w')))"

subsection \<open>get\_repository\_issues\<close>

text \<open>\<^verbatim>\<open>[issue for issue in data if 'pull_request' not in issue]\<close>\<close>

fun filter_issues :: "json list \<Rightarrow> exn + json list" where
  "filter_issues [] = Inr []"
| "filter_issues (issue # rest) =
     (case py_in ''pull_request'' issue of
        Inl e \<Rightarrow> Inl e
      | Inr is_pr \<Rightarrow>
          (case filter_issues rest of
             Inl e \<Rightarrow> Inl e
           | Inr kept \<Rightarrow> Inr (if is_pr then kept else issue # kept)))"

definition issues_params :: "string \<Rightarrow> int \<Rightarrow> nat \<Rightarrow> params" where
  "issues_params state per_page page =
     [(''state'', JStr state), (''per_page'', JInt (min per_page 100)), (''page'', JInt (int page)),
      (''sort'', JStr ''updated''), (''direction'', JStr ''desc'')]"

definition issues_step ::
  "env \<Rightarrow> string \<Rightarrow> string \<Rightarrow> int \<Rightarrow> listing \<Rightarrow> ((exn + json list) \<times> world, listing) iteration"
where
  "issues_step env endpoint state per_page s =
     (case s of (issues, page, w) \<Rightarrow>
        (case make_request env endpoint (Some (issues_params state per_page page)) w of
           (Inl e, w') \<Rightarrow> Break (Inl e, w')
         | (Inr data, w') \<Rightarrow>
             if \<not> truthy data then Break (Inr issues, w')
             else
               (case bind_exn (py_iter data) filter_issues of
                  Inl e \<Rightarrow> Break (Inl e, w')
                | Inr filtered_issues \<Rightarrow>
                    (case py_len data of
                       Inl e \<Rightarrow> Break (Inl e, w')
                     | Inr n \<Rightarrow>
                         if int n < min per_page 100 then Break (Inr (issues @ filtered_issues), w')
                         else if Suc page > 100 then Break (Inr (issues @ filtered_issues), w')
                         else Continue (issues @ filtered_issues, Suc page, w')))))"

lemma issues_step_Continue:
  "issues_step env endpoint state per_page (issues, page, w) = Continue (issues', page', w')
   \<Longrightarrow> page' = Suc page \<and> page' \<le> 100"
  by (auto simp: issues_step_def split: prod.splits sum.splits if_splits)

function get_repository_issues_loop ::
  "env \<Rightarrow> string \<Rightarrow> string \<Rightarrow> int \<Rightarrow> listing \<Rightarrow> (exn + json list) \<times> world"
where
  "get_repository_issues_loop env endpoint state per_page s =
     (case issues_step env endpoint state per_page s of
        Break r \<Rightarrow> r
      | Continue s' \<Rightarrow> get_repository_issues_loop env endpoint state per_page s')"
  by pat_completeness auto
termination
proof (relation "measure (\<lambda>(env, endpoint, state, per_page, issues, page, w). 101 - page)")
  show "wf (measure (\<lambda>(env, endpoint, state, per_page, issues, page, w). 101 - page))"
    by simp
next
  fix env :: env and endpoint state :: string and per_page :: int and s s' :: listing
  assume step: "issues_step env endpoint state per_page s = Continue s'"
  obtain issues page w where s: "s = (issues, page, w)" by (cases s)
  obtain issues' page' w' where s': "s' = (issues', page', w')" by (cases s')
  from issues_step_Continue [OF step [unfolded s s']]
  show "((env, endpoint, state, per_page, s'), (env, endpoint, state, per_page, s))
          \<in> measure (\<lambda>(env, endpoint, state, per_page, issues, page, w). 101 - page)"
    by (auto simp: s s')
qed

declare get_repository_issues_loop.simps [simp del]

definition get_repository_issues ::
  "env \<Rightarrow> string \<Rightarrow> string \<Rightarrow> string \<Rightarrow> int \<Rightarrow> world \<Rightarrow> (exn + json list) \<times> world"
where
  "get_repository_issues env owner repo_name state per_page w =
     (if owner = [] \<or> repo_name = [] then (Inl ValueError, w)
      else if state \<noteq> ''open'' \<and> state \<noteq> ''closed'' \<and> state \<noteq> ''all'' then (Inl ValueError, w)
      else
        get_repository_issues_loop env
          (''repos/'' @ strip owner @ ''/'' @ strip repo_name @ ''/issues'') state per_page ([], 1, w))"

subsection \<open>search\_repositories\<close>

definition search_params :: "string \<Rightarrow> string \<Rightarrow> string \<Rightarrow> int \<Rightarrow> params" where
  "search_params query sort_by order per_page =
     [(''q'', JStr query), (''sort'', JStr sort_by), (''order'', JStr order),
      (''per_page'', JInt (min per_page 100))]"

definition empty_search :: json where
  "empty_search = JObj [(''total_count'', JInt 0), (''items'', JArr [])]"

definition search_repositories ::
  "env \<Rightarrow> string \<Rightarrow> string \<Rightarrow> string \<Rightarrow> int \<Rightarrow> world \<Rightarrow> (exn + json) \<times> world"
where
  "search_repositories env query sort_by order per_page w =
     (if query = [] \<or> strip query = [] then (Inl ValueError, w)
      else if sort_by \<noteq> ''stars'' \<and> sort_by \<noteq> ''forks'' \<and> sort_by \<noteq> ''help-wanted-issues''
                \<and> sort_by \<noteq> ''updated'' then (Inl ValueError, w)
      else if order \<noteq> ''asc'' \<and> order \<noteq> ''desc'' then (Inl ValueError, w)
      else
        (case make_request env ''search/repositories''
                (Some (search_params (strip query) sort_by order per_page)) w of
           (Inl e, w') \<Rightarrow> (Inl e, w')
         | (Inr data, w') \<Rightarrow>
             (case py_in ''total_count'' data of
                Inl e \<Rightarrow> (Inl e, w')
              | Inr has_total \<Rightarrow>
                  if has_total then
                    (case py_in ''items'' data of
                       Inl e \<Rightarrow> (Inl e, w')
                     | Inr has_items \<Rightarrow>
                         if has_items then (Inr data, w') else (Inr empty_search, w'))
                  else (Inr empty_search, w'))))"

subsection \<open>search\_repositories\_paginated\<close>









section \<open>The response interpreter as the specification words it\<close>

text \<open>
  The specification classifies a failed response as one of four kinds and gives the
  rules in order: status 403 with a body that indicates rate-limit exhaustion is
  RateLimited with the wait \<open>max 0 (reset - now)\<close>; status 404 is NotFound; any other
  status outside the success range (that of \<^verbatim>\<open>response.ok\<close>) is Generic with status
  and body text; a body that does not decode is Malformed; otherwise the payload.
\<close>

datatype classified = RateLimited int | NotFound | Generic int string | Malformed string

definition reset_or_zero :: "response \<Rightarrow> int" where
  "reset_or_zero r =
     (case header_get (headers r) ''X-RateLimit-Reset'' of
        None \<Rightarrow> 0
      | Some s \<Rightarrow> (case py_int s of None \<Rightarrow> 0 | Some n \<Rightarrow> n))"

definition interpret_response :: "int \<Rightarrow> response \<Rightarrow> classified + json" where
  "interpret_response now r =
     (if status_code r = 403 \<and> contains ''rate limit exceeded'' (lower (body_text r))
      then Inl (RateLimited (max 0 (reset_or_zero r - now)))
      else if status_code r = 404 then Inl NotFound
      else if \<not> ok r then Inl (Generic (status_code r) (body_text r))
      else (case json r of Inl msg \<Rightarrow> Inl (Malformed msg) | Inr v \<Rightarrow> Inr v))"

text \<open>The exception that carries each kind in the client.\<close>

fun raised_as :: "response \<Rightarrow> classified \<Rightarrow> exn" where
  "raised_as r (RateLimited wait) =
     RateLimitError (''Rate limit exceeded. Try again in '' @ str_int wait @ '' seconds.'')"
| "raised_as r NotFound = GitHubAPIError (''Resource not found: '' @ url r)"
| "raised_as r (Generic st txt) = GitHubAPIError (''GitHub API error '' @ str_int st @ '': '' @ txt)"
| "raised_as r (Malformed msg) = GitHubAPIError (''Invalid JSON response: '' @ msg)"

section \<open>Providers used as examples\<close>

text \<open>A response with the given status, body text and decoded body, and no headers.\<close>

definition plain_response :: "int \<Rightarrow> string \<Rightarrow> string + json \<Rightarrow> request \<Rightarrow> response" where
  "plain_response st txt js rq =
     \<lparr>status_code = st, headers = [], url = req_url rq, body_text = txt, json = js\<rparr>"

text \<open>A provider that answers every request with 403 and a rate-limit message.\<close>

definition always_limited :: env where
  "always_limited =
     \<lparr>send = (\<lambda>n rq. Returns (plain_response 403 ''API rate limit exceeded for 10.0.0.1''
                               (Inr (JObj [(''message'', JStr ''API rate limit exceeded'')])) rq)),
      clock = (\<lambda>n. 0)\<rparr>"

text \<open>
  A provider whose first answer is a 500 and whose later answers are 200 with an empty
  JSON object.
\<close>

definition server_error_once :: env where
  "server_error_once =
     \<lparr>send = (\<lambda>n rq. Returns (if n = 0 then plain_response 500 ''Internal Server Error'' (Inl ''Expecting value'') rq
                               else plain_response 200 ''{}'' (Inr (JObj [])) rq)),
      clock = (\<lambda>n. 0)\<rparr>"

text \<open>A 403 rate-limit response with readable headers, and a 404 with an unreadable one.\<close>

definition limited_response :: response where
  "limited_response =
     \<lparr>status_code = 403,
      headers = [(''X-RateLimit-Remaining'', ''0''), (''x-ratelimit-reset'', ''160'')],
      url = ''https://api.github.com/orgs/x'',
      body_text = ''API Rate Limit Exceeded for 10.0.0.1'',
      json = Inr (JObj [(''message'', JStr ''API rate limit exceeded'')])\<rparr>"

definition unreadable_response :: response where
  "unreadable_response =
     \<lparr>status_code = 404,
      headers = [(''X-RateLimit-Remaining'', ''abc'')],
      url = ''https://api.github.com/orgs/x'',
      body_text = ''Not Found'',
      json = Inr (JObj [(''message'', JStr ''Not Found'')])\<rparr>"


text \<open>
  A provider that holds a fixed list of items and answers every request with status 200
  and the page the request asks for: the \<open>per_page\<close> items that follow the first
  \<open>(page - 1) * per_page\<close>.
\<close>

definition param_int :: "string \<Rightarrow> request \<Rightarrow> int" where
  "param_int k rq =
     (case req_params rq of
        None \<Rightarrow> 0
      | Some ps \<Rightarrow> (case map_of ps k of Some (JInt n) \<Rightarrow> n | _ \<Rightarrow> 0))"

definition page_slice :: "json list \<Rightarrow> int \<Rightarrow> int \<Rightarrow> json list" where
  "page_slice items per_page page = take (nat per_page) (drop (nat ((page - 1) * per_page)) items)"

definition paged_provider :: "json list \<Rightarrow> env" where
  "paged_provider items =
     \<lparr>send = (\<lambda>n rq. Returns (plain_response 200 ''''
                 (Inr (JArr (page_slice items (param_int ''per_page'' rq) (param_int ''page'' rq)))) rq)),
      clock = (\<lambda>n. 0)\<rparr>"

definition two_repositories :: "json list" where
  "two_repositories = [JObj [(''name'', JStr ''alpha'')], JObj [(''name'', JStr ''beta'')]]"

definition three_repositories :: "json list" where
  "three_repositories =
     [JObj [(''name'', JStr ''alpha'')], JObj [(''name'', JStr ''beta'')],
      JObj [(''name'', JStr ''gamma'')]]"


text \<open>
  A provider that answers every request with status 200 and one fixed payload, and one
  that answers every request with a fixed status and body text that is not JSON.
\<close>

definition json_provider :: "json \<Rightarrow> env" where
  "json_provider payload =
     \<lparr>send = (\<lambda>n rq. Returns (plain_response 200 '''' (Inr payload) rq)), clock = (\<lambda>n. 0)\<rparr>"

definition status_provider :: "int \<Rightarrow> string \<Rightarrow> env" where
  "status_provider st txt =
     \<lparr>send = (\<lambda>n rq. Returns (plain_response st txt (Inl ''Expecting value'') rq)),
      clock = (\<lambda>n. 0)\<rparr>"









text \<open>
  The entries of an issue listing as the specification speaks of them: an issue object
  is a JSON object, and it carries a \<^verbatim>\<open>pull_request\<close> field when that is one of its
  keys.
\<close>

fun is_object :: "json \<Rightarrow> bool" where
  "is_object (JObj kvs) = True"
| "is_object j = False"

fun carries_pull_request :: "json \<Rightarrow> bool" where
  "carries_pull_request (JObj kvs) = (''pull_request'' \<in> set (map fst kvs))"
| "carries_pull_request j = False"

text \<open>A page of three issues and two pull requests.\<close>

definition mixed_page :: "json list" where
  "mixed_page =
     [JObj [(''number'', JInt 1), (''title'', JStr ''crash on start'')],
      JObj [(''number'', JInt 2), (''title'', JStr ''fix crash''),
            (''pull_request'', JObj [(''url'', JStr ''https://api.github.com/repos/o/r/pulls/2'')])],
      JObj [(''number'', JInt 3), (''title'', JStr ''no depth frames'')],
      JObj [(''number'', JInt 4), (''title'', JStr ''add tests''), (''pull_request'', JNull)],
      JObj [(''number'', JInt 5), (''title'', JStr ''docs'')]]"

section \<open>The retry governor\<close>

lemma retry_loop_again:
  "func w = (Inl e, w') \<Longrightarrow> retried e \<Longrightarrow> int attempt \<noteq> max_retries \<Longrightarrow>
   retry_loop (Suc k) attempt max_retries base_delay func w
     = retry_loop k (Suc attempt) max_retries base_delay func (sleep (base_delay * 2 ^ attempt) w')"
  by simp

lemma retry_loop_exhausted:
  "func w = (Inl e, w') \<Longrightarrow> retried e \<Longrightarrow> int attempt = max_retries \<Longrightarrow>
   retry_loop (Suc k) attempt max_retries base_delay func w = (Inl e, w')"
  by simp

lemma retry_loop_raise:
  "func w = (Inl e, w') \<Longrightarrow> \<not> retried e \<Longrightarrow>
   retry_loop (Suc k) attempt max_retries base_delay func w = (Inl e, w')"
  by simp

lemma retry_loop_return:
  "func w = (Inr v, w') \<Longrightarrow>
   retry_loop (Suc k) attempt max_retries base_delay func w = (Inr v, w')"
  by simp

lemma four_attempts: "nat (3 + 1) = Suc (Suc (Suc (Suc 0)))"
  by simp

lemma failing_attempt:
  assumes "\<forall>w. \<exists>e. fst (func w) = Inl e \<and> retried e"
  obtains e w' where "func w = (Inl e, w')" and "retried e"
proof -
  obtain e where e: "fst (func w) = Inl e" "retried e" using assms by blast
  obtain r w' where "func w = (r, w')" by (cases "func w")
  with e have "func w = (Inl e, w')" by simp
  with e that show thesis by blast
qed

lemma rate_limit_text_lower:
  "contains ''rate limit exceeded'' (lower ''API rate limit exceeded for 10.0.0.1'')"
  by code_simp

lemma make_request_body_Returns:
  assumes "send env (length (attempts w))
             \<lparr>req_url = base_url @ ''/'' @ lstrip_slash endpoint, req_params = ps\<rparr> = Returns r"
  shows "make_request_body env endpoint ps w
           = (handle_response (clock env (length (attempts w))) r,
              w\<lparr>attempts := attempts w
                   @ [\<lparr>req_url = base_url @ ''/'' @ lstrip_slash endpoint, req_params = ps\<rparr>]\<rparr>)"
  using assms by (simp add: make_request_body_def Let_def)

lemma str_int_0: "str_int 0 = ''0''"
  by code_simp

lemma handle_response_limited:
  "handle_response 0 (plain_response 403 ''API rate limit exceeded for 10.0.0.1'' js rq)
     = Inl (RateLimitError ''Rate limit exceeded. Try again in 0 seconds.'')"
  by (simp add: handle_response_def plain_response_def check_rate_limit_headers_def
        header_get_def reset_time_of_def rate_limit_text_lower str_int_0)

lemma always_limited_body:
  "make_request_body always_limited endpoint ps w
     = (Inl (RateLimitError ''Rate limit exceeded. Try again in 0 seconds.''),
        w\<lparr>attempts := attempts w
             @ [\<lparr>req_url = base_url @ ''/'' @ lstrip_slash endpoint, req_params = ps\<rparr>]\<rparr>)"
  by (subst make_request_body_Returns [where r = "plain_response 403
          ''API rate limit exceeded for 10.0.0.1''
          (Inr (JObj [(''message'', JStr ''API rate limit exceeded'')]))
          \<lparr>req_url = base_url @ ''/'' @ lstrip_slash endpoint, req_params = ps\<rparr>"])
     (simp_all add: always_limited_def handle_response_limited)

text \<open>
  C5: with the default budget of three retries and a base delay of 1.0, an operation that
  fails on every attempt with a retried exception is attempted exactly four times, the
  wrapper sleeps 1, 2 and 4 seconds between the attempts, and the outcome is the failure
  of the fourth attempt, raised with no further sleep.
\<close>

theorem backoff_sequence_default_budget:
  assumes fail: "\<forall>w. \<exists>e. fst (func w) = Inl e \<and> retried e"
      and quiet: "\<forall>w. sleeps (snd (func w)) = sleeps w"
  shows "retry_with_exponential_backoff 3 1 func w
           = func (sleep 4 (snd (func (sleep 2 (snd (func (sleep 1 (snd (func w))))))))) 
       \<and> sleeps (snd (retry_with_exponential_backoff 3 1 func w)) = sleeps w @ [1, 2, 4]
       \<and> (\<exists>e. fst (retry_with_exponential_backoff 3 1 func w) = Inl e \<and> retried e)"
proof -
  obtain e1 w1 where a1: "func w = (Inl e1, w1)" "retried e1"
    using fail by (rule failing_attempt)
  obtain e2 w2 where a2: "func (sleep 1 w1) = (Inl e2, w2)" "retried e2"
    using fail by (rule failing_attempt)
  obtain e3 w3 where a3: "func (sleep 2 w2) = (Inl e3, w3)" "retried e3"
    using fail by (rule failing_attempt)
  obtain e4 w4 where a4: "func (sleep 4 w3) = (Inl e4, w4)" "retried e4"
    using fail by (rule failing_attempt)
  have "retry_with_exponential_backoff 3 1 func w = (Inl e4, w4)"
    unfolding retry_with_exponential_backoff_def four_attempts
    using a1 a2 a3 a4 by simp
  moreover have "sleeps w1 = sleeps w" "sleeps w2 = sleeps (sleep 1 w1)"
    "sleeps w3 = sleeps (sleep 2 w2)" "sleeps w4 = sleeps (sleep 4 w3)"
    using quiet[rule_format, of w] quiet[rule_format, of "sleep 1 w1"]
      quiet[rule_format, of "sleep 2 w2"] quiet[rule_format, of "sleep 4 w3"] a1 a2 a3 a4
    by simp_all
  ultimately show ?thesis using a1 a2 a3 a4 by (simp add: sleep_def)
qed

theorem backoff_sequence_default_budget_witness:
  "(\<forall>w. \<exists>e. fst (make_request_body always_limited ''orgs/x'' None w) = Inl e \<and> retried e)
   \<and> (\<forall>w. sleeps (snd (make_request_body always_limited ''orgs/x'' None w)) = sleeps w)
   \<and> sleeps (snd (retry_with_exponential_backoff 3 1
                     (make_request_body always_limited ''orgs/x'' None) world0)) = [1, 2, 4]
   \<and> length (attempts (snd (retry_with_exponential_backoff 3 1
                     (make_request_body always_limited ''orgs/x'' None) world0))) = 4
   \<and> fst (retry_with_exponential_backoff 3 1
                     (make_request_body always_limited ''orgs/x'' None) world0)
       = Inl (RateLimitError ''Rate limit exceeded. Try again in 0 seconds.'')"
proof -
  let ?f = "make_request_body always_limited ''orgs/x'' None"
  have fail: "\<forall>w. \<exists>e. fst (?f w) = Inl e \<and> retried e"
    by (simp add: always_limited_body)
  have quiet: "\<forall>w. sleeps (snd (?f w)) = sleeps w"
    by (simp add: always_limited_body)
  note run = backoff_sequence_default_budget [OF fail quiet, of world0]
  have eq: "retry_with_exponential_backoff 3 1 ?f world0
              = ?f (sleep 4 (snd (?f (sleep 2 (snd (?f (sleep 1 (snd (?f world0))))))))) "
    using run by (rule conjunct1)
  have "sleeps (snd (retry_with_exponential_backoff 3 1 ?f world0)) = sleeps world0 @ [1, 2, 4]"
    using run by (elim conjE)
  then have sl: "sleeps (snd (retry_with_exponential_backoff 3 1 ?f world0)) = [1, 2, 4]"
    by (simp add: world0_def)
  have att: "length (attempts (snd (retry_with_exponential_backoff 3 1 ?f world0))) = 4"
    unfolding eq by (simp add: always_limited_body sleep_def world0_def)
  have res: "fst (retry_with_exponential_backoff 3 1 ?f world0)
               = Inl (RateLimitError ''Rate limit exceeded. Try again in 0 seconds.'')"
    unfolding eq by (simp add: always_limited_body)
  show ?thesis using fail quiet sl att res by blast
qed

text \<open>
  C1, as the code has it: when an attempt of the wrapped operation raises a
  RequestException or a RateLimitError and the attempt is not the last one allowed, the
  wrapper sleeps \<open>base_delay * 2 ^ attempt\<close> and attempts again; when it raises anything
  else (a GitHubAPIError that is not a RateLimitError, which is how a 404, any other
  status from 400 to 599 and an undecodable body arrive) the exception propagates at
  once, with no sleep and no further attempt.
\<close>

theorem retry_decided_by_exception_class:
  assumes "func w = (Inl e, w')"
  shows "(retried e \<longleftrightarrow> (\<exists>f. e = RequestException f) \<or> (\<exists>m. e = RateLimitError m))
       \<and> (retried e \<and> int attempt \<noteq> max_retries \<longrightarrow>
            retry_loop (Suc k) attempt max_retries base_delay func w
              = retry_loop k (Suc attempt) max_retries base_delay func
                  (sleep (base_delay * 2 ^ attempt) w'))
       \<and> (\<not> retried e \<longrightarrow>
            retry_loop (Suc k) attempt max_retries base_delay func w = (Inl e, w'))"
  using assms by (cases e) simp_all

lemma handle_response_server_error:
  "handle_response 0 (plain_response 500 ''Internal Server Error'' js rq)
     = Inl (GitHubAPIError ''GitHub API error 500: Internal Server Error'')"
proof -
  have "str_int 500 = ''500''" by code_simp
  then show ?thesis
    by (simp add: handle_response_def plain_response_def check_rate_limit_headers_def
        header_get_def ok_def)
qed

lemma server_error_once_body:
  "make_request_body server_error_once ''orgs/x'' None (world0\<lparr>calls := [(''orgs/x'', None)]\<rparr>)
     = (Inl (GitHubAPIError ''GitHub API error 500: Internal Server Error''),
        \<lparr>attempts = [\<lparr>req_url = ''https://api.github.com/orgs/x'', req_params = None\<rparr>],
         calls = [(''orgs/x'', None)], sleeps = []\<rparr>)"
  by (subst make_request_body_Returns [where r = "plain_response 500 ''Internal Server Error''
          (Inl ''Expecting value'') \<lparr>req_url = base_url @ ''/'' @ lstrip_slash ''orgs/x'', req_params = None\<rparr>"])
     (simp_all add: server_error_once_def handle_response_server_error world0_def base_url_def
        lstrip_slash_def)

theorem retry_decided_by_exception_class_witness:
  "make_request_body server_error_once ''orgs/x'' None (world0\<lparr>calls := [(''orgs/x'', None)]\<rparr>)
     = (Inl (GitHubAPIError ''GitHub API error 500: Internal Server Error''),
        \<lparr>attempts = [\<lparr>req_url = ''https://api.github.com/orgs/x'', req_params = None\<rparr>],
         calls = [(''orgs/x'', None)], sleeps = []\<rparr>)
   \<and> retry_loop (Suc 3) 0 3 1 (make_request_body server_error_once ''orgs/x'' None)
        (world0\<lparr>calls := [(''orgs/x'', None)]\<rparr>)
     = (Inl (GitHubAPIError ''GitHub API error 500: Internal Server Error''),
        \<lparr>attempts = [\<lparr>req_url = ''https://api.github.com/orgs/x'', req_params = None\<rparr>],
         calls = [(''orgs/x'', None)], sleeps = []\<rparr>)"
  using retry_decided_by_exception_class
      [where func = "make_request_body server_error_once ''orgs/x'' None"
         and w = "world0\<lparr>calls := [(''orgs/x'', None)]\<rparr>"
         and attempt = 0 and max_retries = 3 and k = 3 and base_delay = 1,
       OF server_error_once_body]
  by (simp add: server_error_once_body)

text \<open>
  The claim as the specification states it fails on a 5xx answer: the first attempt of
  \<^verbatim>\<open>_make_request\<close> gets a 500, three retries remain and the next attempt would
  succeed, yet the call raises after one request and without sleeping.
\<close>

theorem server_error_not_retried:
  "make_request server_error_once ''orgs/x'' None world0
     = (Inl (GitHubAPIError ''GitHub API error 500: Internal Server Error''),
        \<lparr>attempts = [\<lparr>req_url = ''https://api.github.com/orgs/x'', req_params = None\<rparr>],
         calls = [(''orgs/x'', None)], sleeps = []\<rparr>)"
proof -
  have "world0\<lparr>calls := calls world0 @ [(''orgs/x'', None)]\<rparr> = world0\<lparr>calls := [(''orgs/x'', None)]\<rparr>"
    by (simp add: world0_def)
  then show ?thesis
    unfolding make_request_def retry_with_exponential_backoff_def four_attempts
    by (simp add: server_error_once_body)
qed

section \<open>The response interpreter\<close>

lemma check_rate_limit_headers_ValueError:
  "check_rate_limit_headers r = Some e \<Longrightarrow> e = ValueError"
  by (auto simp: check_rate_limit_headers_def reset_time_of_def split: option.splits if_splits)

lemma reset_time_of_ValueError:
  "reset_time_of r = Inl e \<Longrightarrow> e = ValueError"
  by (auto simp: reset_time_of_def split: option.splits)

lemma reset_time_of_value:
  "reset_time_of r = Inr n \<Longrightarrow> reset_or_zero r = n"
  by (auto simp: reset_time_of_def reset_or_zero_def split: option.splits)

text \<open>
  Whenever \<^verbatim>\<open>_handle_response\<close> does not raise ValueError, its outcome is the one the
  ordered rules of the specification give.
\<close>

lemma handle_response_classification:
  assumes "handle_response now r \<noteq> Inl ValueError"
  shows "handle_response now r
           = (case interpret_response now r of Inl c \<Rightarrow> Inl (raised_as r c) | Inr v \<Rightarrow> Inr v)"
proof (cases "check_rate_limit_headers r")
  case (Some e)
  with assms show ?thesis
    by (simp add: handle_response_def check_rate_limit_headers_ValueError)
next
  case None
  show ?thesis
  proof (cases "reset_time_of r")
    case (Inl e)
    with assms None show ?thesis
      by (auto simp: handle_response_def interpret_response_def
            dest: reset_time_of_ValueError split: sum.splits)
  next
    case (Inr n)
    with None show ?thesis
      by (simp add: handle_response_def interpret_response_def reset_time_of_value
            split: sum.splits)
  qed
qed

lemma limited_response_outcome:
  "handle_response 100 limited_response
     = Inl (RateLimitError ''Rate limit exceeded. Try again in 60 seconds.'')"
  by code_simp

text \<open>
  C6: a response is not always classified. A 404 whose \<^verbatim>\<open>X-RateLimit-Remaining\<close> header
  is not an integer literal makes the block that only logs the low-water warning raise
  ValueError, before any of the ordered checks runs; the outcome is none of RateLimited,
  NotFound, Generic, Malformed or a payload, where the claim gives NotFound.
\<close>

theorem unreadable_header_raises_ValueError:
  "handle_response 0 unreadable_response = Inl ValueError"
  by code_simp

section \<open>Requests made by the paginated listings\<close>

lemma retry_loop_calls:
  assumes "\<And>w. calls (snd (func w)) = calls w"
  shows "calls (snd (retry_loop k attempt max_retries base_delay func w)) = calls w"
proof (induction k arbitrary: attempt w)
  case 0
  then show ?case using assms by simp
next
  case (Suc k)
  obtain r w' where f: "func w = (r, w')" by (cases "func w")
  with assms [of w] have c: "calls w' = calls w" by simp
  show ?case
  proof (cases r)
    case (Inl e)
    with f c Suc show ?thesis by (simp add: sleep_def)
  next
    case (Inr v)
    with f c show ?thesis by simp
  qed
qed

lemma make_request_body_calls:
  "calls (snd (make_request_body env endpoint ps w)) = calls w"
  by (simp add: make_request_body_def Let_def split: transport_result.splits request_failure.splits)

lemma make_request_calls:
  "calls (snd (make_request env endpoint ps w)) = calls w @ [(endpoint, ps)]"
  unfolding make_request_def retry_with_exponential_backoff_def
  by (simp add: retry_loop_calls make_request_body_calls)

lemma make_request_ok:
  assumes "send env (length (attempts w))
             \<lparr>req_url = base_url @ ''/'' @ lstrip_slash endpoint, req_params = ps\<rparr> = Returns r"
      and "handle_response (clock env (length (attempts w))) r = Inr v"
  shows "make_request env endpoint ps w
           = (Inr v, w\<lparr>attempts := attempts w
                   @ [\<lparr>req_url = base_url @ ''/'' @ lstrip_slash endpoint, req_params = ps\<rparr>],
                 calls := calls w @ [(endpoint, ps)]\<rparr>)"
proof -
  have "make_request_body env endpoint ps (w\<lparr>calls := calls w @ [(endpoint, ps)]\<rparr>)
          = (Inr v, w\<lparr>attempts := attempts w
                   @ [\<lparr>req_url = base_url @ ''/'' @ lstrip_slash endpoint, req_params = ps\<rparr>],
                 calls := calls w @ [(endpoint, ps)]\<rparr>)"
    using assms by (simp add: make_request_body_def Let_def)
  then show ?thesis
    unfolding make_request_def retry_with_exponential_backoff_def four_attempts by simp
qed

lemma handle_response_plain_ok:
  "handle_response now (plain_response 200 txt (Inr v) rq) = Inr v"
  by (simp add: handle_response_def plain_response_def check_rate_limit_headers_def
        header_get_def ok_def)

lemma repositories_step_world:
  "repositories_step env endpoint per_page (repositories, page, w) = Break (res, w')
   \<Longrightarrow> w' = snd (make_request env endpoint (Some (repositories_params per_page page)) w)"
  "repositories_step env endpoint per_page (repositories, page, w) = Continue (repositories', page', w')
   \<Longrightarrow> w' = snd (make_request env endpoint (Some (repositories_params per_page page)) w)"
  by (auto simp: repositories_step_def split: prod.splits sum.splits if_splits)

lemma get_repositories_loop_calls:
  "length (calls (snd (get_repositories_loop env endpoint per_page (repositories, page, w))))
     \<le> length (calls w) + max 1 (101 - page)"
proof (induction env endpoint per_page "(repositories, page, w)" arbitrary: repositories page w
       rule: get_repositories_loop.induct)
  case (1 env endpoint per_page)
  show ?case
  proof (cases "repositories_step env endpoint per_page (repositories, page, w)")
    case (Break r)
    obtain res w' where r: "r = (res, w')" by (cases r)
    from repositories_step_world(1) [OF Break [unfolded r]]
    have "length (calls w') = length (calls w) + 1" by (simp add: make_request_calls)
    with Break r show ?thesis
      by (subst get_repositories_loop.simps) simp
  next
    case (Continue s')
    obtain repositories' page' w' where s': "s' = (repositories', page', w')" by (cases s')
    from repositories_step_world(2) [OF Continue [unfolded s']]
    have c: "length (calls w') = length (calls w) + 1" by (simp add: make_request_calls)
    from repositories_step_Continue [OF Continue [unfolded s']]
    have p: "page' = Suc page" "page' \<le> 100" by simp_all
    from "1.hyps" [OF Continue [unfolded s']]
    have "length (calls (snd (get_repositories_loop env endpoint per_page (repositories', page', w'))))
            \<le> length (calls w') + max 1 (101 - page')" .
    with c p Continue s' show ?thesis
      by (subst get_repositories_loop.simps) auto
  qed
qed

lemma paged_provider_request:
  "make_request (paged_provider items) endpoint (Some (repositories_params per_page (Suc k))) w
     = (Inr (JArr (take (nat (min per_page 100)) (drop (k * nat (min per_page 100)) items))),
        w\<lparr>attempts := attempts w
             @ [\<lparr>req_url = base_url @ ''/'' @ lstrip_slash endpoint,
                 req_params = Some (repositories_params per_page (Suc k))\<rparr>],
           calls := calls w @ [(endpoint, Some (repositories_params per_page (Suc k)))]\<rparr>)"
proof -
  have "nat ((int (Suc k) - 1) * min per_page 100) = k * nat (min per_page 100)"
    by (simp add: nat_mult_distrib)
  then show ?thesis
    by (subst make_request_ok [where r = "plain_response 200 ''''
          (Inr (JArr (take (nat (min per_page 100)) (drop (k * nat (min per_page 100)) items))))
          \<lparr>req_url = base_url @ ''/'' @ lstrip_slash endpoint,
            req_params = Some (repositories_params per_page (Suc k))\<rparr>"])
       (simp_all add: paged_provider_def handle_response_plain_ok param_int_def page_slice_def
          repositories_params_def)
qed

lemma div_between:
  fixes n k P :: nat
  assumes "k * P \<le> n" "n < k * P + P"
  shows "n div P = k"
proof -
  from assms have "0 < P" by (cases P) auto
  with assms show ?thesis
    by (intro div_nat_eqI) (simp_all add: mult.commute)
qed

lemma paged_listing:
  assumes P: "P = nat (min per_page 100)" "1 \<le> P" and short: "length items < 100 * P"
      and inv: "k * P \<le> length items"
  shows "\<exists>w'. get_repositories_loop (paged_provider items) endpoint per_page
                 (take (k * P) items, Suc k, w) = (Inr items, w')
              \<and> length (calls w') = length (calls w) + (length items div P + 1 - k)"
  using inv
proof (induction "length items div P - k" arbitrary: k w rule: less_induct)
  case less
  let ?slice = "take P (drop (k * P) items)"
  let ?ps = "Some (repositories_params per_page (Suc k))"
  let ?w1 = "w\<lparr>attempts := attempts w
             @ [\<lparr>req_url = base_url @ ''/'' @ lstrip_slash endpoint, req_params = ?ps\<rparr>],
           calls := calls w @ [(endpoint, ?ps)]\<rparr>"
  have req: "make_request (paged_provider items) endpoint ?ps w = (Inr (JArr ?slice), ?w1)"
    using paged_provider_request [of items endpoint per_page k w] P by simp
  have Pint: "min per_page 100 = int P" using P by simp
  have len: "length ?slice = min P (length items - k * P)" by simp
  consider (empty) "length items = k * P"
    | (last) "k * P < length items" "length items < k * P + P"
    | (full) "k * P + P \<le> length items"
    using less.prems by linarith
  then show ?case
  proof cases
    case empty
    then have "?slice = []" by simp
    then have "repositories_step (paged_provider items) endpoint per_page (take (k * P) items, Suc k, w)
                 = Break (Inr (take (k * P) items), ?w1)"
      by (simp add: repositories_step_def req)
    moreover have "take (k * P) items = items" using empty by simp
    moreover have "length items div P = k" using empty P(2) by simp
    ultimately show ?thesis
      by (subst get_repositories_loop.simps) simp
  next
    case last
    then have ne: "?slice \<noteq> []" and lt: "length ?slice < P" using P(2) by auto
    have "take (k * P) items @ ?slice = take (k * P + P) items"
      by (simp add: take_add)
    also have "\<dots> = items" using last by simp
    finally have all: "take (k * P) items @ ?slice = items" .
    have "repositories_step (paged_provider items) endpoint per_page (take (k * P) items, Suc k, w)
            = Break (Inr (take (k * P) items @ ?slice), ?w1)"
      using ne lt by (simp add: repositories_step_def req Pint del: length_take)
    moreover have "length items div P = k"
      using last less.prems by (intro div_between) simp_all
    ultimately show ?thesis
      using all by (subst get_repositories_loop.simps) simp
  next
    case full
    then have ne: "?slice \<noteq> []" and eq: "length ?slice = P" using P(2) by auto
    have k: "Suc (Suc k) \<le> 100"
    proof (rule ccontr)
      assume "\<not> Suc (Suc k) \<le> 100"
      then have "99 \<le> k" by simp
      then have "99 * P \<le> k * P" by (rule mult_le_mono1)
      with full short show False by linarith
    qed
    have "Suc k * P = k * P + P" by simp
    then have app: "take (k * P) items @ ?slice = take (Suc k * P) items"
      by (simp only: take_add)
    have step: "repositories_step (paged_provider items) endpoint per_page (take (k * P) items, Suc k, w)
            = Continue (take (Suc k * P) items, Suc (Suc k), ?w1)"
      using ne eq k by (simp add: repositories_step_def req Pint app del: mult_Suc length_take)
    have kd: "Suc k \<le> length items div P"
      using full P(2) by (simp add: less_eq_div_iff_mult_less_eq add.commute)
    then have dec: "length items div P - Suc k < length items div P - k" by simp
    have inv': "Suc k * P \<le> length items" using full by (simp add: add.commute)
    from less.hyps [OF dec inv', of ?w1]
    obtain w' where w': "get_repositories_loop (paged_provider items) endpoint per_page
                 (take (Suc k * P) items, Suc (Suc k), ?w1) = (Inr items, w')"
        "length (calls w') = length (calls ?w1) + (length items div P + 1 - Suc k)"
      by blast
    have "get_repositories_loop (paged_provider items) endpoint per_page
                 (take (k * P) items, Suc k, w) = (Inr items, w')"
      using step w'(1) by (subst get_repositories_loop.simps) simp
    moreover have "length (calls w') = length (calls w) + (length items div P + 1 - k)"
      using w'(2) kd by simp
    ultimately show ?thesis by blast
  qed
qed

lemma strip_octocat: "strip ''octocat'' = ''octocat''"
  by code_simp

lemma strip_nonempty: "strip s \<noteq> [] \<Longrightarrow> s \<noteq> []"
  by (auto simp: strip_def)

lemma get_repositories_explicit:
  assumes "strip owner_name \<noteq> []" and "owner_type = ''org'' \<or> owner_type = ''user''"
  shows "get_repositories env owner_name owner_type per_page w
           = get_repositories_loop env
               (if owner_type = ''org'' then ''orgs/'' @ strip owner_name @ ''/repos''
                else ''users/'' @ strip owner_name @ ''/repos'')
               per_page ([], 1, w)"
  using assms strip_nonempty [OF assms(1)] by (auto simp: get_repositories_def)

lemma get_repositories_paged:
  assumes "strip owner_name \<noteq> []" and "owner_type = ''org'' \<or> owner_type = ''user''"
      and "1 \<le> min per_page 100" and "int (length items) < 100 * min per_page 100"
  shows "fst (get_repositories (paged_provider items) owner_name owner_type per_page w) = Inr items
       \<and> length (calls (snd (get_repositories (paged_provider items) owner_name owner_type per_page w)))
           = length (calls w) + length items div nat (min per_page 100) + 1"
proof -
  let ?P = "nat (min per_page 100)"
  let ?ep = "if owner_type = ''org'' then ''orgs/'' @ strip owner_name @ ''/repos''
             else ''users/'' @ strip owner_name @ ''/repos''"
  have P: "1 \<le> ?P" using assms(3) by simp
  have short: "length items < 100 * ?P" using assms(3,4) by (simp add: nat_less_iff)
  have inv: "0 * ?P \<le> length items" by simp
  have "\<exists>w'. get_repositories_loop (paged_provider items) ?ep per_page ([], 1, w) = (Inr items, w')
            \<and> length (calls w') = length (calls w) + length items div ?P + 1"
    using paged_listing [OF refl P short inv, of ?ep w] by simp
  then show ?thesis
    unfolding get_repositories_explicit [OF assms(1,2)] by auto
qed

lemma get_repositories_bound:
  assumes "strip owner_name \<noteq> []" and "owner_type = ''org'' \<or> owner_type = ''user''"
  shows "length (calls (snd (get_repositories env owner_name owner_type per_page w)))
           \<le> length (calls w) + 100"
  unfolding get_repositories_explicit [OF assms]
  using get_repositories_loop_calls [of env _ per_page "[]" 1 w] by simp

lemma ceil_div:
  fixes n p :: nat
  assumes "0 < p" "\<not> p dvd n"
  shows "(n + p - 1) div p = n div p + 1"
proof -
  let ?q = "n div p"
  have e: "p * ?q + n mod p = n" by (rule mult_div_mod_eq)
  have r1: "1 \<le> n mod p" using assms(2) by (simp add: dvd_eq_mod_eq_0 Suc_leI)
  have r2: "n mod p < p" using assms(1) by simp
  have d1: "p * (?q + 1) = p * ?q + p" by simp
  have d2: "p * Suc (?q + 1) = p * ?q + p + p" by simp
  show ?thesis
  proof (rule div_nat_eqI)
    show "p * (?q + 1) \<le> n + p - 1" unfolding d1 using e r1 by linarith
    show "n + p - 1 < p * Suc (?q + 1)" unfolding d2 using e r2 assms(1) by linarith
  qed
qed

text \<open>
  C2, as the code has it: against a provider that holds \<open>N\<close> items and serves them in
  pages of the size \<open>P = min per_page 100\<close> asked for, with \<open>1 \<le> P\<close> and
  \<open>N < 100 * P\<close>, \<^verbatim>\<open>get_repositories\<close> returns exactly the \<open>N\<close> items, in order, and
  makes \<open>N div P + 1\<close> page requests; this is \<open>ceil(N/P)\<close> when \<open>P\<close> does not divide
  \<open>N\<close> and one more, a last empty page, when it does. Against any provider whatsoever it
  makes at most 100 page requests. (The owner kind is given, so that no detection probe
  is counted.)
\<close>

theorem pagination_requests:
  assumes "strip owner_name \<noteq> []" and "owner_type = ''org'' \<or> owner_type = ''user''"
  shows "(1 \<le> min per_page 100 \<and> int (length items) < 100 * min per_page 100 \<longrightarrow>
            fst (get_repositories (paged_provider items) owner_name owner_type per_page w) = Inr items
          \<and> length (calls (snd (get_repositories (paged_provider items) owner_name owner_type
                                  per_page w)))
              = length (calls w) + length items div nat (min per_page 100) + 1
          \<and> (\<not> nat (min per_page 100) dvd length items \<longrightarrow>
               length items div nat (min per_page 100) + 1
                 = (length items + nat (min per_page 100) - 1) div nat (min per_page 100)))
       \<and> length (calls (snd (get_repositories env owner_name owner_type per_page w)))
           \<le> length (calls w) + 100"
proof -
  have "0 < nat (min per_page 100)" if "1 \<le> min per_page 100"
    using that by simp
  then show ?thesis
    using get_repositories_paged [OF assms, of per_page items w]
      get_repositories_bound [OF assms, of env per_page w]
      ceil_div [of "nat (min per_page 100)" "length items"]
    by auto
qed

theorem pagination_requests_witness:
  "strip ''octocat'' \<noteq> []
   \<and> fst (get_repositories (paged_provider three_repositories) ''octocat'' ''user'' 2 world0)
       = Inr three_repositories
   \<and> length (calls (snd (get_repositories (paged_provider three_repositories) ''octocat'' ''user''
                           2 world0))) = 2
   \<and> length (calls (snd (get_repositories always_limited ''octocat'' ''user'' 2 world0))) \<le> 100"
proof -
  have a: "strip ''octocat'' \<noteq> []" by (simp add: strip_octocat)
  have b: "''user'' = ''org'' \<or> ''user'' = ''user''" by simp
  have c: "length three_repositories = 3" by (simp add: three_repositories_def)
  from pagination_requests [OF a b, of 2 three_repositories world0 always_limited]
  show ?thesis using a by (simp add: c world0_def)
qed

text \<open>
  The claim as the specification states it fails when the page size divides the total:
  two items in pages of two are returned after two page requests, not
  \<open>ceil(2/2) = 1\<close>.
\<close>

theorem full_last_page_costs_a_request:
  "fst (get_repositories (paged_provider two_repositories) ''octocat'' ''user'' 2 world0)
     = Inr two_repositories
   \<and> length (calls (snd (get_repositories (paged_provider two_repositories) ''octocat'' ''user''
                           2 world0))) = 2
   \<and> (length two_repositories + 2 - 1) div 2 = 1"
proof -
  have a: "strip ''octocat'' \<noteq> []" by (simp add: strip_octocat)
  have b: "''user'' = ''org'' \<or> ''user'' = ''user''" by simp
  have c: "length two_repositories = 2" by (simp add: two_repositories_def)
  from get_repositories_paged [OF a b, of 2 two_repositories world0]
  show ?thesis by (simp add: c world0_def)
qed

section \<open>Requests against the fixed providers\<close>

lemma make_request_api_error:
  assumes "send env (length (attempts w))
             \<lparr>req_url = base_url @ ''/'' @ lstrip_slash endpoint, req_params = ps\<rparr> = Returns r"
      and "handle_response (clock env (length (attempts w))) r = Inl (GitHubAPIError m)"
  shows "make_request env endpoint ps w
           = (Inl (GitHubAPIError m), w\<lparr>attempts := attempts w
                   @ [\<lparr>req_url = base_url @ ''/'' @ lstrip_slash endpoint, req_params = ps\<rparr>],
                 calls := calls w @ [(endpoint, ps)]\<rparr>)"
proof -
  have "make_request_body env endpoint ps (w\<lparr>calls := calls w @ [(endpoint, ps)]\<rparr>)
          = (Inl (GitHubAPIError m), w\<lparr>attempts := attempts w
                   @ [\<lparr>req_url = base_url @ ''/'' @ lstrip_slash endpoint, req_params = ps\<rparr>],
                 calls := calls w @ [(endpoint, ps)]\<rparr>)"
    using assms by (simp add: make_request_body_def Let_def)
  then show ?thesis
    unfolding make_request_def retry_with_exponential_backoff_def four_attempts by simp
qed

lemma json_provider_request:
  "make_request (json_provider payload) endpoint ps w
     = (Inr payload, w\<lparr>attempts := attempts w
                   @ [\<lparr>req_url = base_url @ ''/'' @ lstrip_slash endpoint, req_params = ps\<rparr>],
                 calls := calls w @ [(endpoint, ps)]\<rparr>)"
  by (rule make_request_ok [where r = "plain_response 200 '''' (Inr payload)
          \<lparr>req_url = base_url @ ''/'' @ lstrip_slash endpoint, req_params = ps\<rparr>"])
     (simp_all add: json_provider_def handle_response_plain_ok)

lemma handle_response_plain_error:
  assumes "400 \<le> st" "st < 600" "st \<noteq> 404" "st \<noteq> 403"
  shows "handle_response now (plain_response st txt js rq)
           = Inl (GitHubAPIError (''GitHub API error '' @ str_int st @ '': '' @ txt))"
  using assms
  by (simp add: handle_response_def plain_response_def check_rate_limit_headers_def
        header_get_def ok_def)

lemma status_provider_request:
  assumes "400 \<le> st" "st < 600" "st \<noteq> 404" "st \<noteq> 403"
  shows "make_request (status_provider st txt) endpoint ps w
     = (Inl (GitHubAPIError (''GitHub API error '' @ str_int st @ '': '' @ txt)),
        w\<lparr>attempts := attempts w
                   @ [\<lparr>req_url = base_url @ ''/'' @ lstrip_slash endpoint, req_params = ps\<rparr>],
                 calls := calls w @ [(endpoint, ps)]\<rparr>)"
  by (rule make_request_api_error [where r = "plain_response st txt (Inl ''Expecting value'')
          \<lparr>req_url = base_url @ ''/'' @ lstrip_slash endpoint, req_params = ps\<rparr>"])
     (simp_all add: status_provider_def handle_response_plain_error [OF assms])

lemma handle_response_plain_404:
  "handle_response now (plain_response 404 txt js rq)
     = Inl (GitHubAPIError (''Resource not found: '' @ req_url rq))"
  by (simp add: handle_response_def plain_response_def check_rate_limit_headers_def
        header_get_def)

lemma status_provider_404:
  "make_request (status_provider 404 txt) endpoint ps w
     = (Inl (GitHubAPIError (''Resource not found: '' @ base_url @ ''/'' @ lstrip_slash endpoint)),
        w\<lparr>attempts := attempts w
                   @ [\<lparr>req_url = base_url @ ''/'' @ lstrip_slash endpoint, req_params = ps\<rparr>],
                 calls := calls w @ [(endpoint, ps)]\<rparr>)"
  by (rule make_request_api_error [where r = "plain_response 404 txt (Inl ''Expecting value'')
          \<lparr>req_url = base_url @ ''/'' @ lstrip_slash endpoint, req_params = ps\<rparr>"])
     (simp_all add: status_provider_def handle_response_plain_404)

section \<open>The owner-type resolver\<close>

lemma detect_owner_type_org:
  "make_request env (''orgs/'' @ owner_name) None w = (Inr v, w1)
   \<Longrightarrow> detect_owner_type env owner_name w = (Inr ''org'', w1)"
  by (simp add: detect_owner_type_def)

lemma detect_owner_type_user:
  "make_request env (''orgs/'' @ owner_name) None w = (Inl e, w1) \<Longrightarrow> is_GitHubAPIError e
   \<Longrightarrow> make_request env (''users/'' @ owner_name) None w1 = (Inr v, w2)
   \<Longrightarrow> detect_owner_type env owner_name w = (Inr ''user'', w2)"
  by (simp add: detect_owner_type_def)

lemma detect_owner_type_neither:
  "make_request env (''orgs/'' @ owner_name) None w = (Inl e, w1) \<Longrightarrow> is_GitHubAPIError e
   \<Longrightarrow> make_request env (''users/'' @ owner_name) None w1 = (Inl e2, w2) \<Longrightarrow> is_GitHubAPIError e2
   \<Longrightarrow> detect_owner_type env owner_name w = (Inl (GitHubAPIError (owner_not_found owner_name)), w2)"
  by (simp add: detect_owner_type_def)

lemma detect_owner_type_propagates:
  "make_request env (''orgs/'' @ owner_name) None w = (Inl e, w1) \<Longrightarrow> \<not> is_GitHubAPIError e
   \<Longrightarrow> detect_owner_type env owner_name w = (Inl e, w1)"
  by (simp add: detect_owner_type_def)

text \<open>
  C3: the resolver reports the owner as not found when both probes fail with a server
  error. Against a provider that answers 500 to every request, the organization probe and
  the user probe are each sent once and the resolver raises the error that says the owner
  exists neither as an organization nor as a user.
\<close>

theorem server_error_reported_as_owner_not_found:
  "detect_owner_type (status_provider 500 ''Internal Server Error'') ''octocat'' world0
     = (Inl (GitHubAPIError (owner_not_found ''octocat'')),
        \<lparr>attempts = [\<lparr>req_url = ''https://api.github.com/orgs/octocat'', req_params = None\<rparr>,
                     \<lparr>req_url = ''https://api.github.com/users/octocat'', req_params = None\<rparr>],
         calls = [(''orgs/octocat'', None), (''users/octocat'', None)],
         sleeps = []\<rparr>)"
  by (simp add: detect_owner_type_def status_provider_request world0_def base_url_def
        lstrip_slash_def)

section \<open>README lookup\<close>

lemma strip_hello: "strip ''hello-world'' = ''hello-world''"
  by code_simp

lemma contains_Nil: "contains [] s"
  by (cases s) simp_all

lemma contains_append_left: "contains needle s \<Longrightarrow> contains needle (s @ rest)"
proof (induction s)
  case Nil
  then show ?case by (simp add: contains_Nil)
next
  case (Cons c cs)
  from Cons.prems have "prefix needle (c # cs) \<or> contains needle cs" by simp
  then show ?case
  proof
    assume "prefix needle (c # cs)"
    then have "prefix needle ((c # cs) @ rest)" by (rule prefix_prefix)
    then show ?thesis by simp
  next
    assume "contains needle cs"
    then have "contains needle (cs @ rest)" by (rule Cons.IH)
    then show ?thesis by simp
  qed
qed

lemma lower_append: "lower (a @ b) = lower a @ lower b"
  by (simp add: lower_def)

lemma not_found_in_resource_message:
  "contains ''not found'' (lower (''Resource not found: '' @ u))"
proof -
  have "contains ''not found'' (lower ''Resource not found: '')" by code_simp
  then show ?thesis unfolding lower_append by (rule contains_append_left)
qed

lemma get_repository_readme_handler:
  assumes "owner \<noteq> []" "repo_name \<noteq> []"
      and "make_request env (''repos/'' @ strip owner @ ''/'' @ strip repo_name @ ''/readme'') None w
             = (Inl e, w')"
      and "is_GitHubAPIError e"
  shows "get_repository_readme b64decode_utf8 env owner repo_name w
           = (if contains ''not found'' (lower (str_exn e)) then (Inr None, w') else (Inl e, w'))"
  using assms by (simp add: get_repository_readme_def)

lemma get_repository_readme_not_found:
  assumes "owner \<noteq> []" "repo_name \<noteq> []"
      and "make_request env (''repos/'' @ strip owner @ ''/'' @ strip repo_name @ ''/readme'') None w
             = (Inl (GitHubAPIError (''Resource not found: '' @ u)), w')"
  shows "get_repository_readme b64decode_utf8 env owner repo_name w = (Inr None, w')"
proof -
  have "is_GitHubAPIError (GitHubAPIError (''Resource not found: '' @ u))" by simp
  from get_repository_readme_handler [OF assms this, of b64decode_utf8]
  show ?thesis
    using not_found_in_resource_message [of u] by (simp del: append.simps)
qed

lemma not_found_in_server_error:
  "contains ''not found'' (lower ''GitHub API error 500: Backend Not Found'')"
  by code_simp

lemma str_int_500: "str_int 500 = ''500''"
  by code_simp

text \<open>
  C9: a failure other than NotFound is swallowed when its message happens to contain
  "not found". The README request is answered by a 500 whose body reads "Backend Not
  Found"; \<^verbatim>\<open>get_repository_readme\<close> returns \<^verbatim>\<open>None\<close>, the value for a repository
  without a README, where the Generic failure should have propagated.
\<close>

theorem server_error_reported_as_no_readme:
  "fst (get_repository_readme b64decode_utf8 (status_provider 500 ''Backend Not Found'')
          ''octocat'' ''hello-world'' world0) = Inr None"
  by (simp add: get_repository_readme_def status_provider_request str_int_500
        not_found_in_server_error)

section \<open>Single-page search\<close>

lemma strip_kinect: "strip ''kinect'' = ''kinect''"
  by code_simp

text \<open>
  C10, as the code has it: when the arguments are valid and the decoded search response
  is a JSON object, \<^verbatim>\<open>search_repositories\<close> returns an object that has both the
  \<^verbatim>\<open>total_count\<close> and the \<^verbatim>\<open>items\<close> key: the payload itself when it has both, and
  \<^verbatim>\<open>{'total_count': 0, 'items': []}\<close> when either is missing.
\<close>

theorem search_repositories_has_both_keys:
  assumes "strip query \<noteq> []"
      and "sort_by = ''stars'' \<or> sort_by = ''forks'' \<or> sort_by = ''help-wanted-issues''
             \<or> sort_by = ''updated''"
      and "order = ''asc'' \<or> order = ''desc''"
      and "make_request env ''search/repositories''
             (Some (search_params (strip query) sort_by order per_page)) w = (Inr (JObj kvs), w')"
  shows "search_repositories env query sort_by order per_page w
           = (Inr (if ''total_count'' \<in> fst ` set kvs \<and> ''items'' \<in> fst ` set kvs
                   then JObj kvs else empty_search), w')
       \<and> (\<exists>d. fst (search_repositories env query sort_by order per_page w) = Inr (JObj d)
              \<and> ''total_count'' \<in> fst ` set d \<and> ''items'' \<in> fst ` set d)"
proof -
  have q: "query \<noteq> []" using assms(1) by (auto simp: strip_def)
  have "search_repositories env query sort_by order per_page w
           = (Inr (if ''total_count'' \<in> fst ` set kvs \<and> ''items'' \<in> fst ` set kvs
                   then JObj kvs else empty_search), w')"
    using assms q by (auto simp: search_repositories_def)
  then show ?thesis by (auto simp: empty_search_def)
qed

theorem search_repositories_has_both_keys_witness:
  "strip ''kinect'' \<noteq> []
   \<and> search_repositories (json_provider (JObj [(''message'', JStr ''ok'')])) ''kinect'' ''updated''
       ''desc'' 30 world0
     = (Inr empty_search,
        \<lparr>attempts = [\<lparr>req_url = ''https://api.github.com/search/repositories'',
                      req_params = Some (search_params ''kinect'' ''updated'' ''desc'' 30)\<rparr>],
         calls = [(''search/repositories'', Some (search_params ''kinect'' ''updated'' ''desc'' 30))],
         sleeps = []\<rparr>)"
proof -
  have a: "strip ''kinect'' \<noteq> []" by (simp add: strip_kinect)
  have b: "''updated'' = ''stars'' \<or> ''updated'' = ''forks'' \<or> ''updated'' = ''help-wanted-issues''
             \<or> ''updated'' = ''updated''" by simp
  have c: "''desc'' = ''asc'' \<or> ''desc'' = ''desc''" by simp
  note d = json_provider_request [of "JObj [(''message'', JStr ''ok'')]" "''search/repositories''"
      "Some (search_params (strip ''kinect'') ''updated'' ''desc'' 30)" world0]
  from search_repositories_has_both_keys [OF a b c d]
  show ?thesis using a by (simp add: strip_kinect world0_def base_url_def lstrip_slash_def)
qed

text \<open>
  The claim as stated fails on a decoded response that is not an object: the JSON value
  \<^verbatim>\<open>null\<close> decodes to \<^verbatim>\<open>None\<close>, and the membership test on it raises TypeError.
\<close>

theorem search_repositories_null_payload:
  "fst (search_repositories (json_provider JNull) ''kinect'' ''updated'' ''desc'' 30 world0)
     = Inl TypeError"
  by (simp add: search_repositories_def strip_kinect json_provider_request)

section \<open>The search pager\<close>










section \<open>The rate limit during a paginated search\<close>


















section \<open>Pull requests in the issue listing\<close>

lemma filter_issues_objects:
  "list_all is_object xs \<Longrightarrow> filter_issues xs = Inr (filter (\<lambda>i. \<not> carries_pull_request i) xs)"
proof (induction xs)
  case Nil
  then show ?case by simp
next
  case (Cons issue rest)
  then obtain kvs where "issue = JObj kvs" by (cases issue) simp_all
  with Cons show ?case by simp
qed

lemma paged_provider_issues_request:
  "make_request (paged_provider items) endpoint (Some (issues_params state per_page (Suc k))) w
     = (Inr (JArr (take (nat (min per_page 100)) (drop (k * nat (min per_page 100)) items))),
        w\<lparr>attempts := attempts w
             @ [\<lparr>req_url = base_url @ ''/'' @ lstrip_slash endpoint,
                 req_params = Some (issues_params state per_page (Suc k))\<rparr>],
           calls := calls w @ [(endpoint, Some (issues_params state per_page (Suc k)))]\<rparr>)"
proof -
  have "nat ((int (Suc k) - 1) * min per_page 100) = k * nat (min per_page 100)"
    by (simp add: nat_mult_distrib)
  then show ?thesis
    by (subst make_request_ok [where r = "plain_response 200 ''''
          (Inr (JArr (take (nat (min per_page 100)) (drop (k * nat (min per_page 100)) items))))
          \<lparr>req_url = base_url @ ''/'' @ lstrip_slash endpoint,
            req_params = Some (issues_params state per_page (Suc k))\<rparr>"])
       (simp_all add: paged_provider_def handle_response_plain_ok param_int_def page_slice_def
          issues_params_def)
qed

lemma paged_issues:
  assumes P: "P = nat (min per_page 100)" "1 \<le> P" and short: "length items < 100 * P"
      and objects: "list_all is_object items"
      and inv: "k * P \<le> length items"
  shows "\<exists>w'. get_repository_issues_loop (paged_provider items) endpoint state per_page
                 (filter (\<lambda>i. \<not> carries_pull_request i) (take (k * P) items), Suc k, w)
               = (Inr (filter (\<lambda>i. \<not> carries_pull_request i) items), w')"
  using inv
proof (induction "length items div P - k" arbitrary: k w rule: less_induct)
  case less
  let ?keep = "filter (\<lambda>i. \<not> carries_pull_request i)"
  let ?slice = "take P (drop (k * P) items)"
  let ?ps = "Some (issues_params state per_page (Suc k))"
  let ?w1 = "w\<lparr>attempts := attempts w
             @ [\<lparr>req_url = base_url @ ''/'' @ lstrip_slash endpoint, req_params = ?ps\<rparr>],
           calls := calls w @ [(endpoint, ?ps)]\<rparr>"
  have req: "make_request (paged_provider items) endpoint ?ps w = (Inr (JArr ?slice), ?w1)"
    using paged_provider_issues_request [of items endpoint state per_page k w] P by simp
  have Pint: "min per_page 100 = int P" using P by simp
  have "list_all is_object ?slice"
    using objects by (auto simp: list_all_iff dest: in_set_takeD in_set_dropD)
  then have flt: "filter_issues ?slice = Inr (?keep ?slice)" by (rule filter_issues_objects)
  consider (empty) "length items = k * P"
    | (last) "k * P < length items" "length items < k * P + P"
    | (full) "k * P + P \<le> length items"
    using less.prems by linarith
  then show ?case
  proof cases
    case empty
    then have "?slice = []" by simp
    then have "issues_step (paged_provider items) endpoint state per_page
                 (?keep (take (k * P) items), Suc k, w)
                 = Break (Inr (?keep (take (k * P) items)), ?w1)"
      by (simp add: issues_step_def req)
    moreover have "take (k * P) items = items" using empty by simp
    ultimately show ?thesis
      by (subst get_repository_issues_loop.simps) simp
  next
    case last
    then have ne: "?slice \<noteq> []" and lt: "length ?slice < P" using P(2) by auto
    have "take (k * P) items @ ?slice = take (k * P + P) items"
      by (simp add: take_add)
    also have "\<dots> = items" using last by simp
    finally have all: "take (k * P) items @ ?slice = items" .
    have "?keep (take (k * P) items) @ ?keep ?slice = ?keep (take (k * P) items @ ?slice)"
      by simp
    then have all': "?keep (take (k * P) items) @ ?keep ?slice = ?keep items"
      unfolding all .
    have "issues_step (paged_provider items) endpoint state per_page
            (?keep (take (k * P) items), Suc k, w)
            = Break (Inr (?keep (take (k * P) items) @ ?keep ?slice), ?w1)"
      using ne lt by (simp add: issues_step_def req Pint bind_exn_def flt del: length_take)
    then show ?thesis
      unfolding all' by (subst get_repository_issues_loop.simps) simp
  next
    case full
    then have ne: "?slice \<noteq> []" and eq: "length ?slice = P" using P(2) by auto
    have k: "Suc (Suc k) \<le> 100"
    proof (rule ccontr)
      assume "\<not> Suc (Suc k) \<le> 100"
      then have "99 \<le> k" by simp
      then have "99 * P \<le> k * P" by (rule mult_le_mono1)
      with full short show False by linarith
    qed
    have "Suc k * P = k * P + P" by simp
    then have app: "take (k * P) items @ ?slice = take (Suc k * P) items"
      by (simp only: take_add)
    have "?keep (take (k * P) items) @ ?keep ?slice = ?keep (take (k * P) items @ ?slice)"
      by simp
    then have app': "?keep (take (k * P) items) @ ?keep ?slice = ?keep (take (Suc k * P) items)"
      unfolding app .
    have "issues_step (paged_provider items) endpoint state per_page
            (?keep (take (k * P) items), Suc k, w)
            = Continue (?keep (take (k * P) items) @ ?keep ?slice, Suc (Suc k), ?w1)"
      using ne eq k by (simp add: issues_step_def req Pint bind_exn_def flt del: mult_Suc length_take)
    then have step: "issues_step (paged_provider items) endpoint state per_page
            (?keep (take (k * P) items), Suc k, w)
            = Continue (?keep (take (Suc k * P) items), Suc (Suc k), ?w1)"
      unfolding app' .
    have kd: "Suc k \<le> length items div P"
      using full P(2) by (simp add: less_eq_div_iff_mult_less_eq add.commute)
    then have dec: "length items div P - Suc k < length items div P - k" by simp
    have inv': "Suc k * P \<le> length items" using full by (simp add: add.commute)
    from less.hyps [OF dec inv', of ?w1]
    obtain w' where w': "get_repository_issues_loop (paged_provider items) endpoint state per_page
                 (?keep (take (Suc k * P) items), Suc (Suc k), ?w1) = (Inr (?keep items), w')"
      by blast
    have "get_repository_issues_loop (paged_provider items) endpoint state per_page
                 (?keep (take (k * P) items), Suc k, w) = (Inr (?keep items), w')"
      using step w' by (subst get_repository_issues_loop.simps) simp
    then show ?thesis by blast
  qed
qed

lemma issues_step_page:
  assumes "make_request env endpoint (Some (issues_params state per_page page)) w
             = (Inr (JArr xs), w')"
      and "list_all is_object xs"
  shows "issues_step env endpoint state per_page (issues, page, w)
           = Break (Inr (issues @ filter (\<lambda>i. \<not> carries_pull_request i) xs), w')
       \<or> issues_step env endpoint state per_page (issues, page, w)
           = Continue (issues @ filter (\<lambda>i. \<not> carries_pull_request i) xs, Suc page, w')"
  using assms(1) filter_issues_objects [OF assms(2)]
  by (cases "xs = []") (simp_all add: issues_step_def bind_exn_def)

text \<open>
  C8: \<^verbatim>\<open>get_repository_issues\<close> extends its result, for every page of JSON objects that
  a request returns, with exactly the entries of the page that do not carry a
  \<^verbatim>\<open>pull_request\<close> field, in their order. Against a provider that serves a fixed list of
  JSON objects in pages (fewer than 100 pages of them), it returns exactly the entries of
  the list that do not carry a \<^verbatim>\<open>pull_request\<close> field.
\<close>

theorem issues_listing_drops_pull_requests:
  assumes "list_all is_object items"
      and "owner \<noteq> []" and "repo_name \<noteq> []"
      and "state = ''open'' \<or> state = ''closed'' \<or> state = ''all''"
      and "1 \<le> min per_page 100"
      and "int (length items) < 100 * min per_page 100"
  shows "fst (get_repository_issues (paged_provider items) owner repo_name state per_page w)
           = Inr (filter (\<lambda>i. \<not> carries_pull_request i) items)
       \<and> (\<forall>env endpoint issues page w0 xs w1.
             make_request env endpoint (Some (issues_params state per_page page)) w0
               = (Inr (JArr xs), w1) \<and> list_all is_object xs
             \<longrightarrow> issues_step env endpoint state per_page (issues, page, w0)
                   = Break (Inr (issues @ filter (\<lambda>i. \<not> carries_pull_request i) xs), w1)
               \<or> issues_step env endpoint state per_page (issues, page, w0)
                   = Continue (issues @ filter (\<lambda>i. \<not> carries_pull_request i) xs, Suc page, w1))"
proof
  let ?P = "nat (min per_page 100)"
  have P: "?P = nat (min per_page 100)" "1 \<le> ?P" using assms(5) by simp_all
  have short: "length items < 100 * ?P" using assms(5,6) by linarith
  have inv: "0 * ?P \<le> length items" by simp
  from paged_issues [OF P short assms(1) inv,
      of "''repos/'' @ strip owner @ ''/'' @ strip repo_name @ ''/issues''" state w]
  obtain w' where "get_repository_issues_loop (paged_provider items)
                     (''repos/'' @ strip owner @ ''/'' @ strip repo_name @ ''/issues'') state per_page
                     ([], 1, w)
                   = (Inr (filter (\<lambda>i. \<not> carries_pull_request i) items), w')"
    by auto
  then show "fst (get_repository_issues (paged_provider items) owner repo_name state per_page w)
           = Inr (filter (\<lambda>i. \<not> carries_pull_request i) items)"
    using assms(2,3,4) by (auto simp: get_repository_issues_def)
next
  show "\<forall>env endpoint issues page w0 xs w1.
             make_request env endpoint (Some (issues_params state per_page page)) w0
               = (Inr (JArr xs), w1) \<and> list_all is_object xs
             \<longrightarrow> issues_step env endpoint state per_page (issues, page, w0)
                   = Break (Inr (issues @ filter (\<lambda>i. \<not> carries_pull_request i) xs), w1)
               \<or> issues_step env endpoint state per_page (issues, page, w0)
                   = Continue (issues @ filter (\<lambda>i. \<not> carries_pull_request i) xs, Suc page, w1)"
    using issues_step_page by blast
qed

theorem issues_listing_drops_pull_requests_witness:
  "list_all is_object mixed_page
   \<and> length (filter carries_pull_request mixed_page) = 2
   \<and> length (filter (\<lambda>i. \<not> carries_pull_request i) mixed_page) = 3
   \<and> ''octocat'' \<noteq> [] \<and> ''hello-world'' \<noteq> []
   \<and> (''open'' = ''open'' \<or> ''open'' = ''closed'' \<or> ''open'' = ''all'')
   \<and> (1::int) \<le> min 100 100
   \<and> int (length mixed_page) < 100 * min 100 100
   \<and> fst (get_repository_issues (paged_provider mixed_page) ''octocat'' ''hello-world'' ''open''
            100 world0)
       = Inr [JObj [(''number'', JInt 1), (''title'', JStr ''crash on start'')],
              JObj [(''number'', JInt 3), (''title'', JStr ''no depth frames'')],
              JObj [(''number'', JInt 5), (''title'', JStr ''docs'')]]"
proof -
  have a: "list_all is_object mixed_page" by (simp add: mixed_page_def)
  have b: "''octocat'' \<noteq> []" and c: "''hello-world'' \<noteq> []" by simp_all
  have d: "''open'' = ''open'' \<or> ''open'' = ''closed'' \<or> ''open'' = ''all''" by simp
  have e: "(1::int) \<le> min 100 100" by simp
  have f: "int (length mixed_page) < 100 * min 100 100" by (simp add: mixed_page_def)
  have g: "filter (\<lambda>i. \<not> carries_pull_request i) mixed_page
       = [JObj [(''number'', JInt 1), (''title'', JStr ''crash on start'')],
          JObj [(''number'', JInt 3), (''title'', JStr ''no depth frames'')],
          JObj [(''number'', JInt 5), (''title'', JStr ''docs'')]]"
    by (simp add: mixed_page_def)
  have h: "length (filter carries_pull_request mixed_page) = 2" by (simp add: mixed_page_def)
  from issues_listing_drops_pull_requests [OF a b c d e f, of world0, THEN conjunct1]
  have "fst (get_repository_issues (paged_provider mixed_page) ''octocat'' ''hello-world'' ''open''
            100 world0)
       = Inr [JObj [(''number'', JInt 1), (''title'', JStr ''crash on start'')],
              JObj [(''number'', JInt 3), (''title'', JStr ''no depth frames'')],
              JObj [(''number'', JInt 5), (''title'', JStr ''docs'')]]"
    unfolding g .
  with a b c d e f g h show ?thesis by simp
qed

end
